theory Spec2Isabelle
  imports Complex_Main
begin

section \<open>Python values used by the engine\<close>

text \<open>
  The simulation engine of \<^verbatim>\<open>simulate.py\<close> is embedded function by function.
  Python integers are \<^typ>\<open>int\<close>. A Python float is an IEEE binary64 number; a finite one
  is a rational, so floats are values of \<^typ>\<open>rat\<close> and every float operation is the exact
  operation followed by \<open>fl_round\<close>, rounding to 53 significant bits, ties to even.
  The exponent range is not bounded: overflow to infinity, subnormal numbers, NaN and the
  \<^verbatim>\<open>OverflowError\<close> of converting an integer of 1024 bits or more are outside the model.
  Exceptions are values of \<open>pyerror\<close>.
\<close>

datatype pyerror = ValueError | KeyError | OverflowError

type_synonym pyfloat = rat

subsection \<open>Rounding to binary64\<close>

text \<open>\<^verbatim>\<open>int.bit_length\<close> for a positive integer, 0 otherwise.\<close>

function bit_length :: "int \<Rightarrow> int" where
  "bit_length n = (if n \<le> 0 then 0 else 1 + bit_length (n div 2))"
  by pat_completeness auto
termination
  by (relation "measure nat") auto

declare bit_length.simps [simp del]

definition pow2 :: "int \<Rightarrow> rat" where
  "pow2 e = (if 0 \<le> e then 2 ^ nat e else 1 / 2 ^ nat (- e))"

text \<open>Python's \<^verbatim>\<open>round\<close> of a float to an integer: to nearest, ties to even.\<close>

definition round_half_even :: "rat \<Rightarrow> int" where
  "round_half_even x =
     (let f = \<lfloor>x\<rfloor>; d = x - of_int f
      in if d < 1 / 2 then f else if 1 / 2 < d then f + 1
         else if even f then f else f + 1)"

text \<open>For \<open>0 < x\<close>: the exponent \<open>e\<close> with \<open>2 ^ 52 \<le> x / 2 ^ e < 2 ^ 53\<close>.\<close>

definition float_exponent :: "rat \<Rightarrow> int" where
  "float_exponent x =
     (if 1 \<le> x then bit_length \<lfloor>x\<rfloor> - 53
      else (let e0 = - bit_length \<lfloor>1 / x\<rfloor> - 52
            in if x / pow2 e0 = 2 ^ 53 then e0 + 1 else e0))"

definition fl_pos :: "rat \<Rightarrow> rat" where
  "fl_pos x = (let e = float_exponent x in of_int (round_half_even (x / pow2 e)) * pow2 e)"

definition fl_round :: "rat \<Rightarrow> pyfloat" where
  "fl_round x = (if x = 0 then 0 else if 0 < x then fl_pos x else - fl_pos (- x))"

text \<open>Half the gap between 1 and the next double: the relative error of one rounding.\<close>

definition unit_roundoff :: rat where
  "unit_roundoff = 1 / 2 ^ 53"

text \<open>\<^verbatim>\<open>float(n)\<close> and the implicit conversion of an integer operand.\<close>

definition float_of_int :: "int \<Rightarrow> pyfloat" where
  "float_of_int n = fl_round (of_int n)"

text \<open>\<^verbatim>\<open>a / b\<close> on two integers: the correctly rounded quotient.\<close>

definition int_truediv :: "int \<Rightarrow> int \<Rightarrow> pyfloat" where
  "int_truediv a b = fl_round (of_int a / of_int b)"

definition fdiv :: "pyfloat \<Rightarrow> pyfloat \<Rightarrow> pyfloat" where
  "fdiv x y = fl_round (x / y)"

definition fmul :: "pyfloat \<Rightarrow> pyfloat \<Rightarrow> pyfloat" where
  "fmul x y = fl_round (x * y)"

definition fadd :: "pyfloat \<Rightarrow> pyfloat \<Rightarrow> pyfloat" where
  "fadd x y = fl_round (x + y)"

text \<open>\<^verbatim>\<open>int(x)\<close> on a float truncates towards zero.\<close>

definition py_int :: "pyfloat \<Rightarrow> int" where
  "py_int x = (if 0 \<le> x then \<lfloor>x\<rfloor> else \<lceil>x\<rceil>)"

subsection \<open>The generator of \<^verbatim>\<open>rng_from_seed\<close>\<close>

text \<open>
  The state is a Python integer kept below \<open>2 ^ 64\<close> by \<^verbatim>\<open>& 0xFFFFFFFFFFFFFFFF\<close>, which on
  a Python integer of either sign is the remainder modulo \<open>2 ^ 64\<close>.
\<close>

definition rng_from_seed :: "int \<Rightarrow> int" where
  "rng_from_seed seed =
     (let s = seed mod 2 ^ 64 in if s = 0 then 16045690984503098046 else s)"

definition advance :: "int \<Rightarrow> int" where
  "advance state = (6364136223846793005 * state + 1) mod 2 ^ 64"

text \<open>Both draws return the value and the new state.\<close>

definition randint_inclusive :: "int \<Rightarrow> int \<Rightarrow> int \<Rightarrow> int \<times> int" where
  "randint_inclusive state a b =
     (let state' = advance state;
          span = b - a + 1
      in (a + py_int (fmul (int_truediv state' (2 ^ 64)) (float_of_int span)), state'))"

definition rand :: "int \<Rightarrow> pyfloat \<times> int" where
  "rand state = (let state' = advance state in (int_truediv state' (2 ^ 64), state'))"

subsection \<open>Strings\<close>

text \<open>
  The model of strings is ASCII text: a character is a code point below 128
  (\<open>ascii_text\<close>), and the statements about strings assume it of their input. On such text
  \<^verbatim>\<open>str.strip\<close> removes the characters for which \<^verbatim>\<open>str.isspace\<close> holds, which are the space,
  the controls 0x09 to 0x0D and the separators 0x1C to 0x1F, and \<^verbatim>\<open>str.lower\<close> maps A-Z to
  a-z. Beyond ASCII both follow the Unicode tables, which are not part of the model.
\<close>

definition ascii_text :: "string \<Rightarrow> bool" where
  "ascii_text s = list_all (\<lambda>c. of_char c < (128::nat)) s"

definition is_space :: "char \<Rightarrow> bool" where
  "is_space c = (c \<in> set [CHR '' '', CHR 0x09, CHR 0x0A, CHR 0x0B, CHR 0x0C, CHR 0x0D,
                           CHR 0x1C, CHR 0x1D, CHR 0x1E, CHR 0x1F])"

definition strip :: "string \<Rightarrow> string" where
  "strip s = rev (dropWhile is_space (rev (dropWhile is_space s)))"

definition lower_char :: "char \<Rightarrow> char" where
  "lower_char c =
     (if c \<in> set ''ABCDEFGHIJKLMNOPQRSTUVWXYZ'' then char_of (of_char c + (32::nat)) else c)"

definition lower :: "string \<Rightarrow> string" where
  "lower s = map lower_char s"

definition endswith :: "string \<Rightarrow> char \<Rightarrow> bool" where
  "endswith s c = (s \<noteq> [] \<and> last s = c)"

definition is_digit :: "char \<Rightarrow> bool" where
  "is_digit c = (c \<in> set ''0123456789'')"

definition digit_val :: "char \<Rightarrow> int" where
  "digit_val c = int (of_char c) - 48"

definition digits_val :: "string \<Rightarrow> int" where
  "digits_val ds = foldl (\<lambda>n c. 10 * n + digit_val c) 0 ds"

text \<open>\<^verbatim>\<open>str(n)\<close> and \<^verbatim>\<open>f"{n}"\<close> of an integer: its decimal digits, with a minus sign.\<close>

function decimal_digits :: "int \<Rightarrow> string" where
  "decimal_digits n =
     (if n < 10 then [''0123456789'' ! nat n]
      else decimal_digits (n div 10) @ [''0123456789'' ! nat (n mod 10)])"
  by pat_completeness auto
termination
  by (relation "measure nat") auto

declare decimal_digits.simps [simp del]

definition str_int :: "int \<Rightarrow> string" where
  "str_int n = (if n < 0 then CHR ''-'' # decimal_digits (- n) else decimal_digits n)"

subsection \<open>\<^verbatim>\<open>float(s)\<close> on a string\<close>

text \<open>
  On an ASCII string \<^verbatim>\<open>float\<close> first checks the underscores of the whole string, each
  of which must stand between two digits, and drops them. It then strips the white space
  of C's \<^verbatim>\<open>isspace\<close>, which is the space and the controls 0x09 to 0x0D only (the separators
  0x1C to 0x1F that \<^verbatim>\<open>str.strip\<close> removes are not among them), and reads an optional sign
  and either \<^verbatim>\<open>inf\<close>, \<^verbatim>\<open>infinity\<close>, \<^verbatim>\<open>nan\<close> (in any case) or a decimal number with an
  optional exponent, rounded correctly. Anything else is a \<^verbatim>\<open>ValueError\<close>.
\<close>

definition float_space :: "char \<Rightarrow> bool" where
  "float_space c = (c \<in> set [CHR '' '', CHR 0x09, CHR 0x0A, CHR 0x0B, CHR 0x0C, CHR 0x0D])"

definition float_strip :: "string \<Rightarrow> string" where
  "float_strip s = rev (dropWhile float_space (rev (dropWhile float_space s)))"

datatype xfloat = Finite pyfloat | Infinity | Nan

fun underscores_ok :: "char \<Rightarrow> string \<Rightarrow> bool" where
  "underscores_ok prev [] = (prev \<noteq> CHR ''_'')"
| "underscores_ok prev (c # cs) =
     ((if c = CHR ''_'' then is_digit prev
       else if prev = CHR ''_'' then is_digit c else True)
      \<and> underscores_ok c cs)"

definition sign_split :: "string \<Rightarrow> int \<times> string" where
  "sign_split s =
     (case s of
        [] \<Rightarrow> (1, s)
      | c # r \<Rightarrow> if c = CHR ''-'' then (- 1, r) else if c = CHR ''+'' then (1, r) else (1, s))"

definition pow10 :: "int \<Rightarrow> rat" where
  "pow10 e = (if 0 \<le> e then 10 ^ nat e else 1 / 10 ^ nat (- e))"

definition exponent_part :: "string \<Rightarrow> int option" where
  "exponent_part r =
     (case r of
        [] \<Rightarrow> Some 0
      | c # r' \<Rightarrow>
          if c = CHR ''e'' \<or> c = CHR ''E''
          then (let (sg, ds) = sign_split r'
                in if ds \<noteq> [] \<and> list_all is_digit ds then Some (sg * digits_val ds) else None)
          else None)"

definition decimal :: "string \<Rightarrow> rat option" where
  "decimal u =
     (let ip = takeWhile is_digit u;
          r1 = dropWhile is_digit u;
          has_dot = (r1 \<noteq> [] \<and> hd r1 = CHR ''.'');
          fp = (if has_dot then takeWhile is_digit (tl r1) else []);
          r2 = (if has_dot then dropWhile is_digit (tl r1) else r1)
      in if ip = [] \<and> fp = [] then None
         else (case exponent_part r2 of
                 None \<Rightarrow> None
               | Some ex \<Rightarrow>
                   Some (of_int (digits_val (ip @ fp)) * pow10 (ex - int (length fp)))))"

definition py_float :: "string \<Rightarrow> pyerror + xfloat" where
  "py_float inp =
     (if \<not> underscores_ok (CHR 0x00) inp then Inl ValueError
      else (let (sg, u) = sign_split (float_strip (filter (\<lambda>c. c \<noteq> CHR ''_'') inp))
            in if lower u = ''inf'' \<or> lower u = ''infinity'' then Inr Infinity
               else if lower u = ''nan'' then Inr Nan
               else (case decimal u of
                       None \<Rightarrow> Inl ValueError
                     | Some q \<Rightarrow> Inr (Finite (fl_round (of_int sg * q))))))"

subsection \<open>\<^verbatim>\<open>timedelta\<close> and \<^verbatim>\<open>datetime\<close>\<close>

text \<open>
  A \<^verbatim>\<open>timedelta\<close> is its whole number of microseconds; the constructor raises
  \<^verbatim>\<open>OverflowError\<close> when the number of days leaves \<open>\<plusminus>999999999\<close>. For a float argument
  CPython multiplies the integer part exactly, the fractional part in double arithmetic,
  and rounds the sum to the nearest microsecond, ties to even; infinity and NaN raise.
\<close>

definition timedelta_us :: "int \<Rightarrow> pyerror + int" where
  "timedelta_us us =
     (let days = us div 86400000000
      in if - 999999999 \<le> days \<and> days \<le> 999999999 then Inr us else Inl OverflowError)"

definition timedelta_float :: "int \<Rightarrow> xfloat \<Rightarrow> pyerror + int" where
  "timedelta_float factor xf =
     (case xf of
        Infinity \<Rightarrow> Inl OverflowError
      | Nan \<Rightarrow> Inl ValueError
      | Finite x \<Rightarrow>
          (let intpart = py_int x;
               fracpart = x - of_int intpart
           in timedelta_us
                (round_half_even (of_int (intpart * factor) + fmul (float_of_int factor) fracpart))))"

text \<open>\<^verbatim>\<open>timedelta.total_seconds()\<close>.\<close>

definition total_seconds :: "int \<Rightarrow> pyfloat" where
  "total_seconds us = int_truediv us 1000000"

definition parse_tick :: "string \<Rightarrow> pyerror + int" where
  "parse_tick inp =
     (let s = lower (strip inp)
      in if endswith s (CHR ''h'')
         then (case py_float (butlast s) of
                 Inl e \<Rightarrow> Inl e | Inr hours \<Rightarrow> timedelta_float 3600000000 hours)
         else if endswith s (CHR ''m'')
         then (case py_float (butlast s) of
                 Inl e \<Rightarrow> Inl e | Inr minutes \<Rightarrow> timedelta_float 60000000 minutes)
         else if endswith s (CHR ''s'')
         then (case py_float (butlast s) of
                 Inl e \<Rightarrow> Inl e | Inr seconds \<Rightarrow> timedelta_float 1000000 seconds)
         else Inl ValueError)"

section \<open>The engine\<close>

subsection \<open>Seeds and weights\<close>

text \<open>
  \<^verbatim>\<open>hashlib.sha256\<close> is a library function: \<open>sha256_head s\<close> stands for the first eight
  bytes of the digest of \<open>s\<close>, read as a big-endian unsigned integer.
\<close>

definition seed_for_post :: "(string \<Rightarrow> int) \<Rightarrow> int \<Rightarrow> string \<Rightarrow> int \<Rightarrow> int" where
  "seed_for_post sha256_head global_seed post_id seed_offset =
     sha256_head (str_int global_seed @ ''|'' @ post_id @ ''|'' @ str_int seed_offset)"

text \<open>
  The weight dictionary is an association list with distinct string keys, in insertion
  order; its values are Python numbers. \<^verbatim>\<open>sum\<close> adds from the left, starting at \<open>0\<close>,
  rounding after each addition (CPython before 3.12; later versions compensate the sum).
\<close>

definition py_sum :: "pyfloat list \<Rightarrow> pyfloat" where
  "py_sum xs = foldl fadd 0 xs"

definition normalize_weights :: "(string \<times> rat) list \<Rightarrow> (string \<times> pyfloat) list" where
  "normalize_weights wdict =
     (let total = py_sum (map (\<lambda>(k, v). fl_round v) wdict)
      in if total \<le> 0 then map (\<lambda>h. (str_int h, fdiv 1 24)) [0..23]
         else map (\<lambda>(k, v). (k, fdiv (fl_round v) total)) wdict)"

definition mean_weight_norm :: pyfloat where
  "mean_weight_norm = fdiv 1 24"

subsection \<open>Configuration\<close>

datatype tick_cfg = TickStr string | TickDict "string option" "string option"

record engine_cfg =
  tick_duration :: "tick_cfg option"
  increment_min :: int
  increment_max :: int
  hourly_weights :: "(string \<times> rat) list"
  limits_max_hours :: "int option"
  limits_system_hour_cap :: "int option"

record stage_cfg =
  views_min :: int
  views_max :: int

text \<open>
  A post row of the input table. \<open>start_datetime\<close> is the local wall-clock time, in
  microseconds since 0001-01-01 00:00:00: a start time without zone gets the engine's
  zone attached, \<^verbatim>\<open>astimezone\<close> to that same zone is the identity, and \<^verbatim>\<open>datetime\<close>
  arithmetic works on the wall-clock fields, so the zone never enters the computation.
\<close>

record post =
  post_id :: string
  stage :: string
  start_datetime :: int
  seed_offset :: int

text \<open>The variables \<^verbatim>\<open>simulate\<close> derives from the configuration before it reads the posts.\<close>

datatype tick_spec = Fixed int | Range int int

record engine =
  tick :: tick_spec
  inc_min :: int
  inc_max :: int
  weights_norm :: "(string \<times> pyfloat) list"
  max_hours :: int
  system_hour_cap :: "int option"

definition load_tick :: "tick_cfg option \<Rightarrow> pyerror + tick_spec" where
  "load_tick tc =
     (case (case tc of None \<Rightarrow> TickStr ''1h'' | Some c \<Rightarrow> c) of
        TickDict mn mx \<Rightarrow>
          (case parse_tick (case mn of None \<Rightarrow> ''1h'' | Some a \<Rightarrow> a) of
             Inl e \<Rightarrow> Inl e
           | Inr tick_min \<Rightarrow>
               (case parse_tick (case mx of None \<Rightarrow> ''1h'' | Some b \<Rightarrow> b) of
                  Inl e \<Rightarrow> Inl e
                | Inr tick_max \<Rightarrow>
                    if tick_max < tick_min then Inr (Range tick_max tick_min)
                    else Inr (Range tick_min tick_max)))
      | TickStr str \<Rightarrow>
          (case parse_tick str of Inl e \<Rightarrow> Inl e | Inr tick_fixed \<Rightarrow> Inr (Fixed tick_fixed)))"

definition load_engine :: "engine_cfg \<Rightarrow> pyerror + engine" where
  "load_engine cfg =
     (case load_tick (tick_duration cfg) of
        Inl e \<Rightarrow> Inl e
      | Inr tk \<Rightarrow>
          Inr \<lparr>tick = tk,
               inc_min = increment_min cfg,
               inc_max = increment_max cfg,
               weights_norm = normalize_weights (hourly_weights cfg),
               max_hours = (case limits_max_hours cfg of None \<Rightarrow> 336 | Some n \<Rightarrow> n),
               system_hour_cap = limits_system_hour_cap cfg\<rparr>)"

subsection \<open>The loop of one post\<close>

text \<open>
  An output row; \<open>datetime\<close> is the time in whole seconds, which is what the format
  \<^verbatim>\<open>%Y-%m-%d %H:%M:%S\<close> prints of it.
\<close>

record row =
  no :: int
  row_post_id :: string
  views_inc :: int
  cum_views :: int
  datetime :: int

text \<open>
  The variables the loop changes, and \<open>out\<close>, the rows this post has written so far, in
  order.
\<close>

record loop_state =
  rng :: int
  cum :: int
  t :: int
  row_no :: int
  out :: "row list"

datatype step = Continue loop_state | Break loop_state | Raise pyerror loop_state

text \<open>\<^verbatim>\<open>t + step\<close>: the result must be a date of the years 1 to 9999.\<close>

definition add_datetime :: "loop_state \<Rightarrow> int \<Rightarrow> step" where
  "add_datetime s d =
     (let t' = t s + d
      in if 0 \<le> t' \<and> t' < 315537897600000000 then Continue (s\<lparr>t := t'\<rparr>)
         else Raise OverflowError s)"

text \<open>Lines 154 to 160: the next interval, fixed or drawn from the range.\<close>

definition next_time :: "engine \<Rightarrow> loop_state \<Rightarrow> step" where
  "next_time E s =
     (case tick E of
        Fixed tick_fixed \<Rightarrow> add_datetime s tick_fixed
      | Range tick_min tick_max \<Rightarrow>
          (case timedelta_us (tick_max - tick_min) of
             Inl e \<Rightarrow> Raise e s
           | Inr width \<Rightarrow>
               (let span_seconds = total_seconds width;
                    (u, r) = rand (rng s);
                    step_seconds = fadd (total_seconds tick_min) (fmul u span_seconds);
                    s' = s\<lparr>rng := r\<rparr>
                in case timedelta_us (py_int step_seconds * 1000000) of
                     Inl e \<Rightarrow> Raise e s'
                   | Inr delta \<Rightarrow> add_datetime s' delta)))"

text \<open>Lines 129 and 130: the normalized weight of the local hour of \<open>tm\<close>.\<close>

definition weight_at :: "engine \<Rightarrow> int \<Rightarrow> pyfloat" where
  "weight_at E tm =
     (let hour_local = (tm div 3600000000) mod 24
      in case map_of (weights_norm E) (str_int hour_local) of
           Some x \<Rightarrow> x | None \<Rightarrow> fdiv 1 24)"

text \<open>Lines 132 to 135: the increment scaled by the weight, then cut at the hour cap.\<close>

definition scaled_inc :: "engine \<Rightarrow> pyfloat \<Rightarrow> int \<Rightarrow> int" where
  "scaled_inc E w base =
     (let inc_raw = fmul (float_of_int base) (fdiv w mean_weight_norm);
          inc = \<lfloor>max 0 inc_raw\<rfloor>
      in case system_hour_cap E of None \<Rightarrow> inc | Some cap \<Rightarrow> min inc cap)"

text \<open>Lines 140 to 145: the clamp, for a positive \<open>remaining\<close>.\<close>

definition clamp_inc :: "engine \<Rightarrow> int \<Rightarrow> int \<Rightarrow> int" where
  "clamp_inc E inc remaining =
     (if remaining \<le> inc_min E then remaining
      else min (min (max inc (inc_min E)) (inc_max E)) remaining)"

text \<open>Lines 147 to 150: a row is written and counted.\<close>

definition emit :: "string \<Rightarrow> int \<Rightarrow> loop_state \<Rightarrow> loop_state" where
  "emit pid inc s =
     s\<lparr>cum := cum s + inc,
       row_no := row_no s + 1,
       out := out s @ [\<lparr>no = row_no s, row_post_id = pid, views_inc = inc,
                        cum_views = cum s + inc, datetime = t s div 1000000\<rparr>]\<rparr>"

text \<open>Lines 129 to 160: one iteration of the loop.\<close>

definition tick_body :: "engine \<Rightarrow> string \<Rightarrow> int \<Rightarrow> loop_state \<Rightarrow> step" where
  "tick_body E pid target s =
     (let w = weight_at E (t s);
          (base, r) = randint_inclusive (rng s) (inc_min E) (inc_max E);
          s0 = s\<lparr>rng := r\<rparr>;
          inc = scaled_inc E w base;
          remaining = target - cum s
      in if remaining \<le> 0 then Break s0
         else (let inc' = clamp_inc E inc remaining
               in if 0 < inc'
                  then (let s1 = emit pid inc' s0
                        in if target \<le> cum s1 then Break s1 else next_time E s1)
                  else next_time E s0))"

datatype stop = Reached | Exhausted | Raised pyerror

text \<open>\<^verbatim>\<open>for k in range(max_hours)\<close>, by recursion on the number of iterations left.\<close>

fun post_loop :: "engine \<Rightarrow> string \<Rightarrow> int \<Rightarrow> nat \<Rightarrow> loop_state \<Rightarrow> stop \<times> loop_state" where
  "post_loop E pid target 0 s = (Exhausted, s)"
| "post_loop E pid target (Suc n) s =
     (case tick_body E pid target s of
        Continue s' \<Rightarrow> post_loop E pid target n s'
      | Break s' \<Rightarrow> (Reached, s')
      | Raise e s' \<Rightarrow> (Raised e, s'))"

text \<open>The states in which the iterations that run are entered, in order.\<close>

fun loop_trace :: "engine \<Rightarrow> string \<Rightarrow> int \<Rightarrow> nat \<Rightarrow> loop_state \<Rightarrow> loop_state list" where
  "loop_trace E pid target 0 s = []"
| "loop_trace E pid target (Suc n) s =
     s # (case tick_body E pid target s of
            Continue s' \<Rightarrow> loop_trace E pid target n s'
          | Break s' \<Rightarrow> []
          | Raise e s' \<Rightarrow> [])"

subsection \<open>The run\<close>

text \<open>Lines 109 to 127: the generator, the target and the first state of a post.\<close>

definition post_rng :: "(string \<Rightarrow> int) \<Rightarrow> int \<Rightarrow> post \<Rightarrow> int" where
  "post_rng sha256_head seed r =
     rng_from_seed (seed_for_post sha256_head seed (post_id r) (seed_offset r))"

definition post_target :: "(string \<Rightarrow> int) \<Rightarrow> int \<Rightarrow> stage_cfg \<Rightarrow> post \<Rightarrow> int" where
  "post_target sha256_head seed sc r =
     fst (randint_inclusive (post_rng sha256_head seed r) (views_min sc) (views_max sc))"

definition post_init :: "(string \<Rightarrow> int) \<Rightarrow> int \<Rightarrow> stage_cfg \<Rightarrow> post \<Rightarrow> int \<Rightarrow> loop_state" where
  "post_init sha256_head seed sc r n =
     \<lparr>rng = snd (randint_inclusive (post_rng sha256_head seed r) (views_min sc) (views_max sc)),
      cum = 0, t = start_datetime r, row_no = n, out = []\<rparr>"

definition simulate_post ::
  "(string \<Rightarrow> int) \<Rightarrow> int \<Rightarrow> (string \<rightharpoonup> stage_cfg) \<Rightarrow> engine \<Rightarrow> post \<Rightarrow> int
     \<Rightarrow> stop \<times> loop_state" where
  "simulate_post sha256_head seed stage_map E r n =
     (case stage_map (strip (stage r)) of
        None \<Rightarrow>
          (Raised KeyError,
           \<lparr>rng = post_rng sha256_head seed r, cum = 0, t = start_datetime r,
            row_no = n, out = []\<rparr>)
      | Some sc \<Rightarrow>
          post_loop E (post_id r) (post_target sha256_head seed sc r) (nat (max_hours E))
            (post_init sha256_head seed sc r n))"

text \<open>
  \<^verbatim>\<open>for r in rows\<close>: the posts in input order, threading the row counter and the rows of
  the output file.
\<close>

fun run_posts ::
  "(string \<Rightarrow> int) \<Rightarrow> int \<Rightarrow> (string \<rightharpoonup> stage_cfg) \<Rightarrow> engine \<Rightarrow> post list \<Rightarrow> int
     \<Rightarrow> row list \<Rightarrow> (pyerror + unit) \<times> row list" where
  "run_posts sha256_head seed stage_map E [] n file = (Inr (), file)"
| "run_posts sha256_head seed stage_map E (r # rs) n file =
     (case simulate_post sha256_head seed stage_map E r n of
        (Raised e, s) \<Rightarrow> (Inl e, file @ out s)
      | (Reached, s) \<Rightarrow> run_posts sha256_head seed stage_map E rs (row_no s) (file @ out s)
      | (Exhausted, s) \<Rightarrow> run_posts sha256_head seed stage_map E rs (row_no s) (file @ out s))"

text \<open>
  The output file and its handle. \<^verbatim>\<open>open(out_path, "w")\<close> creates or truncates the
  file; the header line written right after is constant and left implicit. The handle is
  released by \<^verbatim>\<open>out_f.close()\<close> on line 162 and nowhere else.
\<close>

record world =
  out_file :: "row list option"
  out_open :: bool

definition simulate ::
  "(string \<Rightarrow> int) \<Rightarrow> post list \<Rightarrow> (string \<rightharpoonup> stage_cfg) \<Rightarrow> engine_cfg \<Rightarrow> int \<Rightarrow> world
     \<Rightarrow> (pyerror + unit) \<times> world" where
  "simulate sha256_head posts stage_map cfg seed w =
     (case load_engine cfg of
        Inl e \<Rightarrow> (Inl e, w)
      | Inr E \<Rightarrow>
          (case run_posts sha256_head seed stage_map E posts 1 [] of
             (Inl e, file) \<Rightarrow> (Inl e, \<lparr>out_file = Some file, out_open = True\<rparr>)
           | (Inr u, file) \<Rightarrow> (Inr (), \<lparr>out_file = Some file, out_open = False\<rparr>)))"

subsection \<open>Notions used by the properties\<close>

text \<open>The state a step ends in.\<close>

fun state_of :: "step \<Rightarrow> loop_state" where
  "state_of (Continue s) = s"
| "state_of (Break s) = s"
| "state_of (Raise e s) = s"

text \<open>
  The configured durations are non-negative lengths of time. A range is stored with the
  smaller bound first, so the first bound decides.
\<close>

fun tick_nonneg :: "tick_spec \<Rightarrow> bool" where
  "tick_nonneg (Fixed d) = (0 \<le> d)"
| "tick_nonneg (Range lo hi) = (0 \<le> lo)"

subsection \<open>Example inputs\<close>

text \<open>Small inputs on which the theorems below are instantiated.\<close>

definition demo_engine :: engine where
  "demo_engine =
     \<lparr>tick = Fixed 3600000000, inc_min = 5, inc_max = 10,
      weights_norm = normalize_weights [(''9'', 1), (''10'', 0)],
      max_hours = 6, system_hour_cap = None\<rparr>"

definition demo_stage :: stage_cfg where
  "demo_stage = \<lparr>views_min = 8, views_max = 8\<rparr>"

text \<open>A post that starts at 10:00:00 of day 730000, an hour of weight 0.\<close>

definition demo_post :: post where
  "demo_post =
     \<lparr>post_id = ''p1'', stage = ''1'', start_datetime = 63072036000000000, seed_offset = 0\<rparr>"


text \<open>The configuration \<open>demo_engine\<close> is loaded from.\<close>

definition demo_cfg :: engine_cfg where
  "demo_cfg =
     \<lparr>tick_duration = Some (TickStr ''1h''), increment_min = 5, increment_max = 10,
      hourly_weights = [(''9'', 1), (''10'', 0)],
      limits_max_hours = Some 6, limits_system_hour_cap = None\<rparr>"

section \<open>Properties\<close>

subsection \<open>Signs survive rounding\<close>

lemma pow2_pos: "0 < pow2 e"
  by (simp add: pow2_def)

lemma round_half_even_nonneg: "0 \<le> x \<Longrightarrow> 0 \<le> round_half_even x"
  by (simp add: round_half_even_def Let_def)

lemma fl_pos_nonneg: "0 < x \<Longrightarrow> 0 \<le> fl_pos x"
proof -
  assume x: "0 < x"
  have "0 \<le> x / pow2 (float_exponent x)"
    using x pow2_pos [of "float_exponent x"] by simp
  then have "0 \<le> round_half_even (x / pow2 (float_exponent x))"
    by (rule round_half_even_nonneg)
  then show ?thesis
    using pow2_pos [of "float_exponent x"] by (simp add: fl_pos_def Let_def)
qed

lemma fl_round_zero [simp]: "fl_round 0 = 0"
  by (simp add: fl_round_def)

lemma fl_round_nonneg: "0 \<le> x \<Longrightarrow> 0 \<le> fl_round x"
  by (simp add: fl_round_def fl_pos_nonneg)

lemma fl_round_nonpos: "x \<le> 0 \<Longrightarrow> fl_round x \<le> 0"
  using fl_pos_nonneg [of "- x"] by (simp add: fl_round_def)

lemma fmul_zero_right [simp]: "fmul x 0 = 0"
  by (simp add: fmul_def)

lemma fdiv_zero_left [simp]: "fdiv 0 y = 0"
  by (simp add: fdiv_def)

lemma fmul_nonneg: "0 \<le> x \<Longrightarrow> 0 \<le> y \<Longrightarrow> 0 \<le> fmul x y"
  by (simp add: fmul_def fl_round_nonneg)

lemma fadd_nonneg: "0 \<le> x \<Longrightarrow> 0 \<le> y \<Longrightarrow> 0 \<le> fadd x y"
  by (simp add: fadd_def fl_round_nonneg)

lemma int_truediv_nonneg: "0 \<le> a \<Longrightarrow> 0 < b \<Longrightarrow> 0 \<le> int_truediv a b"
  by (simp add: int_truediv_def fl_round_nonneg)

lemma float_of_int_nonneg: "0 \<le> n \<Longrightarrow> 0 \<le> float_of_int n"
  by (simp add: float_of_int_def fl_round_nonneg)

lemma py_int_nonneg: "0 \<le> x \<Longrightarrow> 0 \<le> py_int x"
  by (simp add: py_int_def)

lemma advance_range: "0 \<le> advance s \<and> advance s < 2 ^ 64"
  by (simp add: advance_def)


lemma randint_inclusive_lower: "a \<le> b \<Longrightarrow> a \<le> fst (randint_inclusive s a b)"
proof -
  assume ab: "a \<le> b"
  have "0 \<le> int_truediv (advance s) (2 ^ 64)"
    using advance_range [of s] by (intro int_truediv_nonneg) simp_all
  moreover have "0 \<le> float_of_int (b - a + 1)"
    using ab by (intro float_of_int_nonneg) simp
  ultimately have "0 \<le> py_int (fmul (int_truediv (advance s) (2 ^ 64)) (float_of_int (b - a + 1)))"
    by (intro py_int_nonneg fmul_nonneg)
  then show ?thesis
    by (simp add: randint_inclusive_def Let_def)
qed

lemma rand_nonneg: "0 \<le> fst (rand s)"
  using advance_range [of s] by (simp add: rand_def Let_def int_truediv_nonneg)

subsection \<open>Rounding error\<close>

lemma bit_length_bounds:
  "0 < n \<Longrightarrow> 1 \<le> bit_length n \<and> 2 ^ nat (bit_length n - 1) \<le> n \<and> n < 2 ^ nat (bit_length n)"
proof (induction n rule: bit_length.induct)
  case (1 n)
  show ?case
  proof (cases "0 < n div 2")
    case True
    with 1 have ih: "1 \<le> bit_length (n div 2)"
      "2 ^ nat (bit_length (n div 2) - 1) \<le> n div 2"
      "n div 2 < 2 ^ nat (bit_length (n div 2))"
      by simp_all
    have bl: "bit_length n = 1 + bit_length (n div 2)"
      using 1(2) by (simp add: bit_length.simps [of n])
    have e: "nat (bit_length n - 1) = Suc (nat (bit_length (n div 2) - 1))"
      "nat (bit_length n) = Suc (nat (bit_length (n div 2)))"
      using ih(1) bl by simp_all
    have n2: "2 * (n div 2) \<le> n" "n < 2 * (n div 2) + 2"
      by presburger+
    have p1: "(2::int) ^ nat (bit_length n - 1) = 2 * 2 ^ nat (bit_length (n div 2) - 1)"
      and p2: "(2::int) ^ nat (bit_length n) = 2 * 2 ^ nat (bit_length (n div 2))"
      by (simp_all only: e power_Suc)
    have "1 \<le> bit_length n" using ih(1) bl by simp
    moreover have "2 ^ nat (bit_length n - 1) \<le> n" using ih(2) n2(1) p1 by linarith
    moreover have "n < 2 ^ nat (bit_length n)" using ih(3) n2(2) p2 by linarith
    ultimately show ?thesis by simp
  next
    case False
    with 1(2) have n1: "n = 1" by linarith
    have b0: "bit_length 0 = 0"
      by (subst bit_length.simps) simp
    have b1: "bit_length 1 = 1"
      by (subst bit_length.simps) (simp add: b0)
    show ?thesis
      unfolding n1 b1 by simp
  qed
qed

lemma pow2_powi: "pow2 e = 2 powi e"
  by (simp add: pow2_def power_int_def field_simps)

lemma pow2_add: "pow2 (a + b) = pow2 a * pow2 b"
  by (simp add: pow2_powi power_int_add)

lemma pow2_nat: "0 \<le> e \<Longrightarrow> pow2 e = 2 ^ nat e"
  by (simp add: pow2_def)

lemma float_exponent_ok:
  assumes "0 < x"
  shows "pow2 52 * pow2 (float_exponent x) \<le> x"
proof (cases "1 \<le> x")
  case True
  then have f: "0 < \<lfloor>x\<rfloor>" by simp
  from bit_length_bounds [OF f] have b: "1 \<le> bit_length \<lfloor>x\<rfloor>"
    "2 ^ nat (bit_length \<lfloor>x\<rfloor> - 1) \<le> \<lfloor>x\<rfloor>" by simp_all
  have "pow2 52 * pow2 (float_exponent x) = pow2 (bit_length \<lfloor>x\<rfloor> - 1)"
    using True by (simp add: float_exponent_def pow2_add [symmetric])
  also have "\<dots> = 2 ^ nat (bit_length \<lfloor>x\<rfloor> - 1)"
    using b(1) by (simp add: pow2_nat)
  also have "\<dots> = of_int (2 ^ nat (bit_length \<lfloor>x\<rfloor> - 1))" by simp
  also have "\<dots> \<le> of_int \<lfloor>x\<rfloor>"
    using b(2) by (simp only: of_int_le_iff)
  also have "\<dots> \<le> x" by simp
  finally show ?thesis .
next
  case False
  with assms have x1: "1 < 1 / x" by simp
  then have f: "0 < \<lfloor>1 / x\<rfloor>" by simp
  let ?k = "bit_length \<lfloor>1 / x\<rfloor>"
  from bit_length_bounds [OF f] have b: "1 \<le> ?k" "\<lfloor>1 / x\<rfloor> < 2 ^ nat ?k" by simp_all
  have "1 / x < of_int (2 ^ nat ?k)"
    using b(2) by (simp only: floor_less_iff)
  then have "1 / x < 2 ^ nat ?k" by simp
  then have lt: "1 / 2 ^ nat ?k < x"
    using assms by (simp add: field_simps)
  have pk: "pow2 (- ?k) = 1 / 2 ^ nat ?k"
    using b(1) by (simp add: pow2_def)
  have base: "pow2 52 * pow2 (- ?k - 52) = pow2 (- ?k)"
    by (simp add: pow2_add [symmetric])
  show ?thesis
  proof (cases "x / pow2 (- ?k - 52) = 2 ^ 53")
    case True
    have p: "0 < pow2 (- ?k - 52)" by (rule pow2_pos)
    from True p have "x = 2 ^ 53 * pow2 (- ?k - 52)" by (simp add: field_simps)
    moreover have "pow2 (- ?k - 52 + 1) = pow2 (- ?k - 52) * pow2 1"
      by (rule pow2_add)
    moreover have "pow2 1 = 2" "pow2 52 = 2 ^ 52"
      by (simp_all add: pow2_def)
    ultimately have "pow2 52 * pow2 (- ?k - 52 + 1) = x"
      by simp
    moreover have "float_exponent x = - ?k - 52 + 1"
      using False True by (simp add: float_exponent_def Let_def)
    ultimately show ?thesis by simp
  next
    case ne: False
    then show ?thesis
      using False lt base pk by (simp add: float_exponent_def Let_def)
  qed
qed

lemma float_exponent_upper:
  assumes "0 < x"
  shows "x < 2 ^ 53 * pow2 (float_exponent x)"
proof (cases "1 \<le> x")
  case True
  then have f: "0 < \<lfloor>x\<rfloor>" by simp
  let ?k = "bit_length \<lfloor>x\<rfloor>"
  from bit_length_bounds [OF f] have b: "1 \<le> ?k" "\<lfloor>x\<rfloor> < 2 ^ nat ?k" by simp_all
  have "x < of_int (2 ^ nat ?k)"
    using b(2) by (simp only: floor_less_iff)
  also have "\<dots> = pow2 ?k" using b(1) by (simp add: pow2_nat)
  also have "\<dots> = pow2 53 * pow2 (?k - 53)" by (simp add: pow2_add [symmetric])
  also have "pow2 53 = 2 ^ 53" by (simp add: pow2_def)
  finally show ?thesis using True by (simp add: float_exponent_def)
next
  case False
  with assms have x1: "1 < 1 / x" by simp
  then have f: "0 < \<lfloor>1 / x\<rfloor>" by simp
  let ?k = "bit_length \<lfloor>1 / x\<rfloor>"
  from bit_length_bounds [OF f] have b: "1 \<le> ?k" "2 ^ nat (?k - 1) \<le> \<lfloor>1 / x\<rfloor>" by simp_all
  have "of_int (2 ^ nat (?k - 1)) \<le> (of_int \<lfloor>1 / x\<rfloor> :: rat)"
    using b(2) by (simp only: of_int_le_iff)
  also have "\<dots> \<le> 1 / x" by simp
  finally have "2 ^ nat (?k - 1) \<le> 1 / x" by simp
  then have le: "x \<le> 1 / 2 ^ nat (?k - 1)"
    using assms by (simp add: field_simps)
  have "pow2 (1 - ?k) = 1 / 2 ^ nat (?k - 1)"
    using b(1) by (simp add: pow2_def)
  moreover have "pow2 53 * pow2 (- ?k - 52) = pow2 (1 - ?k)"
    by (simp add: pow2_add [symmetric])
  moreover have p53: "pow2 53 = 2 ^ 53" by (simp add: pow2_def)
  ultimately have up: "x \<le> 2 ^ 53 * pow2 (- ?k - 52)"
    using le by simp
  have p: "0 < pow2 (- ?k - 52)" by (rule pow2_pos)
  show ?thesis
  proof (cases "x / pow2 (- ?k - 52) = 2 ^ 53")
    case True
    then have "x = 2 ^ 53 * pow2 (- ?k - 52)" using p by (simp add: field_simps)
    moreover have "pow2 (- ?k - 52 + 1) = pow2 (- ?k - 52) * pow2 1" by (rule pow2_add)
    moreover have "pow2 1 = 2" by (simp add: pow2_def)
    moreover have "float_exponent x = - ?k - 52 + 1"
      using False True by (simp add: float_exponent_def Let_def)
    ultimately show ?thesis using p by simp
  next
    case ne: False
    then have "x \<noteq> 2 ^ 53 * pow2 (- ?k - 52)" using p by (simp add: field_simps)
    with up have "x < 2 ^ 53 * pow2 (- ?k - 52)" by simp
    moreover have "float_exponent x = - ?k - 52"
      using False ne by (simp add: float_exponent_def Let_def)
    ultimately show ?thesis by simp
  qed
qed

lemma round_half_even_error: "\<bar>of_int (round_half_even y) - y\<bar> \<le> 1 / 2"
proof -
  have "of_int \<lfloor>y\<rfloor> \<le> y" "y < of_int \<lfloor>y\<rfloor> + 1" by linarith+
  then show ?thesis
    by (auto simp: round_half_even_def Let_def abs_le_iff)
qed

lemma fl_pos_error:
  assumes "0 < x"
  shows "\<bar>fl_pos x - x\<bar> \<le> unit_roundoff * x"
proof -
  let ?p = "pow2 (float_exponent x)"
  have p: "0 < ?p" by (rule pow2_pos)
  have "fl_pos x - x = (of_int (round_half_even (x / ?p)) - x / ?p) * ?p"
    using p by (simp add: fl_pos_def Let_def field_simps)
  then have "\<bar>fl_pos x - x\<bar> = \<bar>of_int (round_half_even (x / ?p)) - x / ?p\<bar> * ?p"
    using p by (simp add: abs_mult)
  also have "\<dots> \<le> 1 / 2 * ?p"
    using round_half_even_error [of "x / ?p"] p by (intro mult_right_mono) simp_all
  also have "\<dots> \<le> unit_roundoff * x"
    using float_exponent_ok [OF assms] by (simp add: pow2_def unit_roundoff_def)
  finally show ?thesis .
qed

lemma fl_round_error: "\<bar>fl_round x - x\<bar> \<le> unit_roundoff * \<bar>x\<bar>"
proof -
  consider "x = 0" | "0 < x" | "x < 0" by linarith
  then show ?thesis
  proof cases
    case 1
    then show ?thesis by simp
  next
    case 2
    with fl_pos_error [of x] show ?thesis by (simp add: fl_round_def)
  next
    case 3
    with fl_pos_error [of "- x"] show ?thesis by (simp add: fl_round_def)
  qed
qed

lemma unit_roundoff_range: "0 < unit_roundoff" "unit_roundoff < 1"
  by (simp_all add: unit_roundoff_def)





subsection \<open>The generator\<close>

text \<open>
  C6. \<^verbatim>\<open>randint_inclusive(a, b)\<close> is meant to advance the state once and return a value of
  \<open>[a, b]\<close>, as \<open>a + floor(fraction * (b - a + 1))\<close>. The state does advance once and the
  value is at least \<open>a\<close>, but the fraction \<^verbatim>\<open>state / 2**64\<close> is a double: for a new state of
  at least \<open>2 ^ 64 - 1024\<close> it rounds to \<open>1.0\<close>, and the value is \<open>b + 1\<close>. The generator
  seeded with 9137839865990459062 steps to the state \<open>2 ^ 64 - 1\<close>, and a draw from
  \<open>[1, 6]\<close> returns 7.
\<close>

theorem randint_inclusive_leaves_range:
  "randint_inclusive (rng_from_seed 9137839865990459062) 1 6 = (7, 18446744073709551615)"
  by code_simp

subsection \<open>Steps of the loop\<close>

lemma add_datetime_frame:
  "cum (state_of (add_datetime s d)) = cum s"
  "out (state_of (add_datetime s d)) = out s"
  "row_no (state_of (add_datetime s d)) = row_no s"
  by (simp_all add: add_datetime_def Let_def)

lemma add_datetime_not_Break: "add_datetime s d \<noteq> Break s'"
  by (simp add: add_datetime_def Let_def)

lemma add_datetime_mono: "0 \<le> d \<Longrightarrow> t s \<le> t (state_of (add_datetime s d))"
  by (simp add: add_datetime_def Let_def)

lemma next_time_frame:
  "cum (state_of (next_time E s)) = cum s"
  "out (state_of (next_time E s)) = out s"
  "row_no (state_of (next_time E s)) = row_no s"
  by (simp_all add: next_time_def Let_def add_datetime_frame
        split: tick_spec.split sum.split prod.split)

lemma next_time_not_Break: "next_time E s \<noteq> Break s'"
  by (simp add: next_time_def Let_def add_datetime_not_Break
        split: tick_spec.split sum.split prod.split)

lemma total_seconds_nonneg: "0 \<le> us \<Longrightarrow> 0 \<le> total_seconds us"
  by (simp add: total_seconds_def int_truediv_nonneg)

lemma timedelta_us_Inr: "timedelta_us us = Inr d \<Longrightarrow> d = us"
  by (simp add: timedelta_us_def Let_def split: if_splits)

lemma range_step_nonneg:
  assumes "0 \<le> lo" "lo \<le> hi"
  shows "0 \<le> py_int (fadd (total_seconds lo) (fmul (fst (rand g)) (total_seconds (hi - lo)))) * 1000000"
proof -
  have "0 \<le> fmul (fst (rand g)) (total_seconds (hi - lo))"
    using assms by (intro fmul_nonneg rand_nonneg total_seconds_nonneg) simp
  then have "0 \<le> fadd (total_seconds lo) (fmul (fst (rand g)) (total_seconds (hi - lo)))"
    using assms by (intro fadd_nonneg total_seconds_nonneg)
  then show ?thesis
    by (simp add: py_int_nonneg)
qed

lemma next_time_mono:
  assumes "tick_nonneg (tick E)" "\<And>lo hi. tick E = Range lo hi \<Longrightarrow> lo \<le> hi"
  shows "t s \<le> t (state_of (next_time E s))"
proof (cases "tick E")
  case (Fixed d)
  with assms show ?thesis
    by (simp add: next_time_def add_datetime_mono)
next
  case (Range lo hi)
  with assms have lo: "0 \<le> lo" "lo \<le> hi" by auto
  obtain u g where ug: "rand (rng s) = (u, g)"
    by (cases "rand (rng s)")
  then have u: "u = fst (rand (rng s))" by simp
  show ?thesis
  proof (cases "timedelta_us (hi - lo)")
    case (Inl e)
    then show ?thesis using Range by (simp add: next_time_def)
  next
    case (Inr width)
    then have w: "width = hi - lo" by (rule timedelta_us_Inr)
    let ?d = "py_int (fadd (total_seconds lo) (fmul u (total_seconds (hi - lo)))) * 1000000"
    have d: "0 \<le> ?d" unfolding u by (rule range_step_nonneg [OF lo])
    show ?thesis
    proof (cases "timedelta_us ?d")
      case (Inl e)
      then show ?thesis using Range Inr w ug by (simp add: next_time_def Let_def)
    next
      case (Inr delta)
      then have "delta = ?d" by (rule timedelta_us_Inr)
      with Inr have "next_time E s = add_datetime (s\<lparr>rng := g\<rparr>) ?d"
        using Range \<open>timedelta_us (hi - lo) = Inr width\<close> w ug
        by (simp add: next_time_def Let_def)
      with add_datetime_mono [OF d, of "s\<lparr>rng := g\<rparr>"] show ?thesis by simp
    qed
  qed
qed

lemma load_tick_ordered: "load_tick tc = Inr (Range lo hi) \<Longrightarrow> lo \<le> hi"
  by (auto simp: load_tick_def split: tick_cfg.splits sum.splits if_splits option.splits)

lemma load_engine_ordered: "load_engine cfg = Inr E \<Longrightarrow> tick E = Range lo hi \<Longrightarrow> lo \<le> hi"
  by (auto simp: load_engine_def split: sum.splits dest: load_tick_ordered)

lemma clamp_inc_le_remaining: "clamp_inc E i remaining \<le> remaining"
  by (simp add: clamp_inc_def)




text \<open>What one iteration does, case by case.\<close>

lemma tick_body_cases:
  obtains
    (finished) g where "target \<le> cum s" "tick_body E pid target s = Break (s\<lparr>rng := g\<rparr>)"
  | (quiet) g base where "cum s < target"
      "clamp_inc E (scaled_inc E (weight_at E (t s)) base) (target - cum s) \<le> 0"
      "tick_body E pid target s = next_time E (s\<lparr>rng := g\<rparr>)"
  | (landing) g base where "cum s < target"
      "0 < clamp_inc E (scaled_inc E (weight_at E (t s)) base) (target - cum s)"
      "target \<le> cum s + clamp_inc E (scaled_inc E (weight_at E (t s)) base) (target - cum s)"
      "tick_body E pid target s =
         Break (emit pid (clamp_inc E (scaled_inc E (weight_at E (t s)) base) (target - cum s)) (s\<lparr>rng := g\<rparr>))"
  | (growing) g base where "cum s < target"
      "0 < clamp_inc E (scaled_inc E (weight_at E (t s)) base) (target - cum s)"
      "cum s + clamp_inc E (scaled_inc E (weight_at E (t s)) base) (target - cum s) < target"
      "tick_body E pid target s =
         next_time E (emit pid (clamp_inc E (scaled_inc E (weight_at E (t s)) base) (target - cum s)) (s\<lparr>rng := g\<rparr>))"
proof -
  obtain base g where rg: "randint_inclusive (rng s) (inc_min E) (inc_max E) = (base, g)"
    by (cases "randint_inclusive (rng s) (inc_min E) (inc_max E)")
  let ?i = "clamp_inc E (scaled_inc E (weight_at E (t s)) base) (target - cum s)"
  consider "target \<le> cum s" | "cum s < target" "?i \<le> 0"
    | "cum s < target" "0 < ?i" "target \<le> cum s + ?i"
    | "cum s < target" "0 < ?i" "cum s + ?i < target"
    by linarith
  then show thesis
  proof cases
    case 1
    then show ?thesis using rg by (intro finished [of g]) (simp_all add: tick_body_def Let_def)
  next
    case 2
    then show ?thesis using rg by (intro quiet [of base g]) (simp_all add: tick_body_def Let_def)
  next
    case 3
    then show ?thesis using rg
      by (intro landing [of base g]) (simp_all add: tick_body_def Let_def emit_def)
  next
    case 4
    then show ?thesis using rg
      by (intro growing [of base g]) (simp_all add: tick_body_def Let_def emit_def)
  qed
qed


lemma emit_simps [simp]:
  "cum (emit pid i s) = cum s + i"
  "t (emit pid i s) = t s"
  "row_no (emit pid i s) = row_no s + 1"
  "out (emit pid i s) =
     out s @ [\<lparr>no = row_no s, row_post_id = pid, views_inc = i, cum_views = cum s + i,
               datetime = t s div 1000000\<rparr>]"
  by (simp_all add: emit_def)

text \<open>A property that every iteration keeps holds in every state the loop passes.\<close>

lemma post_loop_invariant:
  assumes "P s" and "\<And>s. P s \<Longrightarrow> P (state_of (tick_body E pid target s))"
  shows "P (snd (post_loop E pid target n s)) \<and> list_all P (loop_trace E pid target n s)"
  using assms(1)
proof (induction n arbitrary: s)
  case 0
  then show ?case by simp
next
  case (Suc n)
  from assms(2) [OF Suc.prems] have st: "P (state_of (tick_body E pid target s))" .
  show ?case
  proof (cases "tick_body E pid target s")
    case (Continue s')
    with st Suc.IH [of s'] Suc.prems show ?thesis by simp
  next
    case (Break s')
    with st Suc.prems show ?thesis by simp
  next
    case (Raise e s')
    with st Suc.prems show ?thesis by simp
  qed
qed

lemma loop_trace_length: "length (loop_trace E pid target n s) \<le> n"
proof (induction n arbitrary: s)
  case 0
  show ?case by simp
next
  case (Suc n)
  show ?case using Suc.IH by (cases "tick_body E pid target s") auto
qed

subsection \<open>The example run\<close>

lemma demo_engine_loaded: "load_engine demo_cfg = Inr demo_engine"
  by code_simp

lemma demo_target: "post_target (\<lambda>s. 0) 42 demo_stage demo_post = 8"
  by code_simp



lemma demo_run:
  "post_loop demo_engine (post_id demo_post) 8 6 (post_init (\<lambda>s. 0) 42 demo_stage demo_post 1) =
   (Reached,
    \<lparr>rng = 7662282064687895789, cum = 8, t = 63072039600000000, row_no = 3,
     out = [\<lparr>no = 1, row_post_id = ''p1'', views_inc = 5, cum_views = 5,
              datetime = 63072036000\<rparr>,
            \<lparr>no = 2, row_post_id = ''p1'', views_inc = 3, cum_views = 8,
              datetime = 63072039600\<rparr>]\<rparr>)"
  by code_simp

subsection \<open>The target bounds the cumulative count\<close>

lemma target_bound_step:
  assumes "cum s \<le> target \<and> list_all (\<lambda>r. cum_views r \<le> target) (out s)
           \<and> (out s = [] \<or> cum_views (last (out s)) = cum s)"
  shows "cum (state_of (tick_body E pid target s)) \<le> target
         \<and> list_all (\<lambda>r. cum_views r \<le> target) (out (state_of (tick_body E pid target s)))
         \<and> (out (state_of (tick_body E pid target s)) = []
            \<or> cum_views (last (out (state_of (tick_body E pid target s))))
               = cum (state_of (tick_body E pid target s)))"
proof (cases rule: tick_body_cases [of target s E pid])
  case (finished g)
  with assms show ?thesis by auto
next
  case (quiet g base)
  with assms show ?thesis by (auto simp: next_time_frame)
next
  case (landing g base)
  with assms clamp_inc_le_remaining [of E "scaled_inc E (weight_at E (t s)) base" "target - cum s"]
  show ?thesis by auto
next
  case (growing g base)
  with assms show ?thesis by (auto simp: next_time_frame)
qed


lemma reached_on_target:
  assumes "cum s \<le> target \<and> list_all (\<lambda>r. cum_views r \<le> target) (out s)
           \<and> (out s = [] \<or> cum_views (last (out s)) = cum s)"
    and "fst (post_loop E pid target n s) = Reached"
  shows "cum (snd (post_loop E pid target n s)) = target"
  using assms
proof (induction n arbitrary: s)
  case 0
  then show ?case by simp
next
  case (Suc n)
  note inv = target_bound_step [OF Suc.prems(1), of E pid]
  show ?case
  proof (cases rule: tick_body_cases [of target s E pid])
    case (finished g)
    with Suc.prems show ?thesis by simp
  next
    case (landing g base)
    with Suc.prems clamp_inc_le_remaining [of E "scaled_inc E (weight_at E (t s)) base" "target - cum s"]
    show ?thesis by simp
  next
    case (quiet g base)
    show ?thesis
    proof (cases "tick_body E pid target s")
      case (Continue s')
      with inv Suc.IH [of s'] Suc.prems(2) show ?thesis by simp
    next
      case (Break s')
      with quiet(3) have False by (metis next_time_not_Break)
      then show ?thesis ..
    next
      case (Raise e s')
      with Suc.prems(2) show ?thesis by simp
    qed
  next
    case (growing g base)
    show ?thesis
    proof (cases "tick_body E pid target s")
      case (Continue s')
      with inv Suc.IH [of s'] Suc.prems(2) show ?thesis by simp
    next
      case (Break s')
      with growing(4) have False by (metis next_time_not_Break)
      then show ?thesis ..
    next
      case (Raise e s')
      with Suc.prems(2) show ?thesis by simp
    qed
  qed
qed

lemma post_target_lower:
  "views_min sc \<le> views_max sc \<Longrightarrow> views_min sc \<le> post_target sha256_head seed sc r"
  by (simp add: post_target_def randint_inclusive_lower)

lemma post_init_simps [simp]:
  "cum (post_init sha256_head seed sc r n) = 0"
  "out (post_init sha256_head seed sc r n) = []"
  "t (post_init sha256_head seed sc r n) = start_datetime r"
  "row_no (post_init sha256_head seed sc r n) = n"
  by (simp_all add: post_init_def)

text \<open>
  C3. For every post whose stage has \<open>0 \<le> views_min \<le> views_max\<close> (the stage table
  promises \<open>1 \<le> views_min\<close>), with the target the post draws: in every state in which an
  iteration of its loop is entered and in the state the loop ends in, the cumulative count
  is at most the target; so is the \<open>cum_views\<close> of every row written; and when the loop ends
  by reaching the target and has written a row, the last row's \<open>cum_views\<close> is the target.
  This holds for any number \<open>n\<close> of iterations allowed and any row counter \<open>k\<close>.
\<close>

theorem cum_bounded_by_target:
  fixes sha256_head seed sc r E n k
  defines "target \<equiv> post_target sha256_head seed sc r"
  defines "s0 \<equiv> post_init sha256_head seed sc r k"
  assumes "0 \<le> views_min sc" and "views_min sc \<le> views_max sc"
  shows "list_all (\<lambda>s. cum s \<le> target) (loop_trace E (post_id r) target n s0)
       \<and> cum (snd (post_loop E (post_id r) target n s0)) \<le> target
       \<and> list_all (\<lambda>x. cum_views x \<le> target) (out (snd (post_loop E (post_id r) target n s0)))
       \<and> (fst (post_loop E (post_id r) target n s0) = Reached
            \<and> out (snd (post_loop E (post_id r) target n s0)) \<noteq> []
          \<longrightarrow> cum_views (last (out (snd (post_loop E (post_id r) target n s0)))) = target)"
proof -
  let ?P = "\<lambda>s. cum s \<le> target \<and> list_all (\<lambda>x. cum_views x \<le> target) (out s)
                 \<and> (out s = [] \<or> cum_views (last (out s)) = cum s)"
  have tgt: "0 \<le> target"
    using assms(3,4) post_target_lower [of sc sha256_head seed r] by (simp add: target_def)
  then have init: "?P s0" by (simp add: s0_def)
  have "?P (snd (post_loop E (post_id r) target n s0)) \<and> list_all ?P (loop_trace E (post_id r) target n s0)"
    using init by (rule post_loop_invariant) (rule target_bound_step)
  moreover have "fst (post_loop E (post_id r) target n s0) = Reached
      \<Longrightarrow> cum (snd (post_loop E (post_id r) target n s0)) = target"
    using init by (rule reached_on_target)
  ultimately show ?thesis
    by (auto simp: list_all_iff)
qed

theorem cum_bounded_by_target_witness:
  "0 \<le> views_min demo_stage \<and> views_min demo_stage \<le> views_max demo_stage
   \<and> fst (post_loop demo_engine (post_id demo_post) (post_target (\<lambda>s. 0) 42 demo_stage demo_post) 6
       (post_init (\<lambda>s. 0) 42 demo_stage demo_post 1)) = Reached
   \<and> cum_views (last (out (snd (post_loop demo_engine (post_id demo_post) (post_target (\<lambda>s. 0) 42 demo_stage demo_post) 6
       (post_init (\<lambda>s. 0) 42 demo_stage demo_post 1))))) = 8
   \<and> post_target (\<lambda>s. 0) 42 demo_stage demo_post = 8"
proof -
  have a: "0 \<le> views_min demo_stage" and b: "views_min demo_stage \<le> views_max demo_stage"
    by (simp_all add: demo_stage_def)
  have "out (snd (post_loop demo_engine (post_id demo_post) (post_target (\<lambda>s. 0) 42 demo_stage demo_post) 6
       (post_init (\<lambda>s. 0) 42 demo_stage demo_post 1))) \<noteq> []"
    by (simp add: demo_target demo_run)
  with cum_bounded_by_target [OF a b, where E = demo_engine and sha256_head = "\<lambda>s. 0"
        and seed = 42 and r = demo_post and n = 6 and k = 1] a b
  show ?thesis
    by (simp add: demo_target demo_run)
qed

subsection \<open>Rows in order\<close>

lemma rows_ordered_step:
  assumes tk: "tick_nonneg (tick E)" "\<And>lo hi. tick E = Range lo hi \<Longrightarrow> lo \<le> hi"
    and inv: "sorted_wrt (<) (map cum_views (out s)) \<and> list_all (\<lambda>x. cum_views x \<le> cum s) (out s)
         \<and> sorted (map datetime (out s)) \<and> list_all (\<lambda>x. datetime x \<le> t s div 1000000) (out s)"
  shows "sorted_wrt (<) (map cum_views (out (state_of (tick_body E pid target s))))
         \<and> list_all (\<lambda>x. cum_views x \<le> cum (state_of (tick_body E pid target s)))
              (out (state_of (tick_body E pid target s)))
         \<and> sorted (map datetime (out (state_of (tick_body E pid target s))))
         \<and> list_all (\<lambda>x. datetime x \<le> t (state_of (tick_body E pid target s)) div 1000000)
              (out (state_of (tick_body E pid target s)))"
proof -
  have later: "list_all (\<lambda>x. datetime x \<le> t (state_of (next_time E s')) div 1000000) xs"
    if "list_all (\<lambda>x. datetime x \<le> t s' div 1000000) xs" for s' xs
  proof -
    have "t s' div 1000000 \<le> t (state_of (next_time E s')) div 1000000"
      using next_time_mono [OF tk, of s'] by (simp add: zdiv_mono1)
    with that show ?thesis by (auto simp: list_all_iff)
  qed
  show ?thesis
  proof (cases rule: tick_body_cases [of target s E pid])
    case (finished g)
    with inv show ?thesis by simp
  next
    case (quiet g base)
    with inv later [of "s\<lparr>rng := g\<rparr>" "out s"] show ?thesis
      by (simp add: next_time_frame)
  next
    case (landing g base)
    with inv show ?thesis
      by (auto simp: sorted_wrt_append list_all_iff)
  next
    case (growing g base)
    let ?i = "clamp_inc E (scaled_inc E (weight_at E (t s)) base) (target - cum s)"
    have "list_all (\<lambda>x. datetime x \<le> t (emit pid ?i (s\<lparr>rng := g\<rparr>)) div 1000000)
            (out (emit pid ?i (s\<lparr>rng := g\<rparr>)))"
      using inv by (auto simp: list_all_iff)
    from later [OF this] growing inv show ?thesis
      by (auto simp: next_time_frame sorted_wrt_append list_all_iff)
  qed
qed

text \<open>
  C5. For every post, under an engine loaded from a configuration whose tick durations are
  non-negative: across the rows the post's loop writes, \<open>cum_views\<close> is strictly increasing
  and \<open>datetime\<close> is non-decreasing.
\<close>

theorem rows_monotone:
  fixes sha256_head seed sc r E n k cfg
  defines "target \<equiv> post_target sha256_head seed sc r"
  defines "s0 \<equiv> post_init sha256_head seed sc r k"
  assumes "load_engine cfg = Inr E" and "tick_nonneg (tick E)"
  shows "sorted_wrt (<) (map cum_views (out (snd (post_loop E (post_id r) target n s0))))
       \<and> sorted (map datetime (out (snd (post_loop E (post_id r) target n s0))))"
proof -
  let ?Q = "\<lambda>s. sorted_wrt (<) (map cum_views (out s)) \<and> list_all (\<lambda>x. cum_views x \<le> cum s) (out s)
         \<and> sorted (map datetime (out s)) \<and> list_all (\<lambda>x. datetime x \<le> t s div 1000000) (out s)"
  have ord: "\<And>lo hi. tick E = Range lo hi \<Longrightarrow> lo \<le> hi"
    using assms(3) by (rule load_engine_ordered)
  have "?Q s0" by (simp add: s0_def)
  then have "?Q (snd (post_loop E (post_id r) target n s0))
      \<and> list_all ?Q (loop_trace E (post_id r) target n s0)"
    by (rule post_loop_invariant) (rule rows_ordered_step [OF assms(4) ord])
  then show ?thesis by simp
qed

theorem rows_monotone_witness:
  "load_engine demo_cfg = Inr demo_engine \<and> tick_nonneg (tick demo_engine)
   \<and> map cum_views (out (snd (post_loop demo_engine (post_id demo_post) (post_target (\<lambda>s. 0) 42 demo_stage demo_post) 6
       (post_init (\<lambda>s. 0) 42 demo_stage demo_post 1)))) = [5, 8]
   \<and> sorted_wrt (<) (map cum_views (out (snd (post_loop demo_engine (post_id demo_post) (post_target (\<lambda>s. 0) 42 demo_stage demo_post) 6
       (post_init (\<lambda>s. 0) 42 demo_stage demo_post 1)))))
   \<and> sorted (map datetime (out (snd (post_loop demo_engine (post_id demo_post) (post_target (\<lambda>s. 0) 42 demo_stage demo_post) 6
       (post_init (\<lambda>s. 0) 42 demo_stage demo_post 1)))))"
proof -
  have h: "tick_nonneg (tick demo_engine)"
    by (simp add: demo_engine_def)
  have e: "map cum_views (out (snd (post_loop demo_engine (post_id demo_post) (post_target (\<lambda>s. 0) 42 demo_stage demo_post) 6
       (post_init (\<lambda>s. 0) 42 demo_stage demo_post 1)))) = [5, 8]"
    by (simp add: demo_target demo_run)
  from rows_monotone [OF demo_engine_loaded h, where sha256_head = "\<lambda>s. 0" and seed = 42 and sc = demo_stage and r = demo_post and k = 1 and n = 6]
    demo_engine_loaded h e
  show ?thesis by blast
qed

subsection \<open>The tick budget\<close>

lemma post_loop_via_trace:
  "post_loop E pid target n s =
     (case loop_trace E pid target n s of
        [] \<Rightarrow> (Exhausted, s)
      | x # xs \<Rightarrow>
          (case tick_body E pid target (last (x # xs)) of
             Continue s' \<Rightarrow> (Exhausted, s')
           | Break s' \<Rightarrow> (Reached, s')
           | Raise e s' \<Rightarrow> (Raised e, s')))"
proof (induction n arbitrary: s)
  case 0
  show ?case by simp
next
  case (Suc n)
  show ?case
  proof (cases "tick_body E pid target s")
    case (Continue s')
    then show ?thesis
      using Suc.IH [of s'] by (cases n) (auto split: list.splits)
  next
    case (Break s')
    then show ?thesis by simp
  next
    case (Raise e s')
    then show ?thesis by simp
  qed
qed

text \<open>
  C8. For every post and every engine with \<open>max_hours \<ge> 1\<close>, from any state: the loop is a
  total function of its arguments, it enters at most \<open>max_hours\<close> iterations, and its result
  is what the last of them leaves, whether the target was reached, the budget ran out or
  an iteration raised.
\<close>

theorem loop_within_max_ticks:
  assumes "1 \<le> max_hours E"
  shows "int (length (loop_trace E pid target (nat (max_hours E)) s)) \<le> max_hours E
       \<and> post_loop E pid target (nat (max_hours E)) s =
           (case loop_trace E pid target (nat (max_hours E)) s of
              [] \<Rightarrow> (Exhausted, s)
            | x # xs \<Rightarrow>
                (case tick_body E pid target (last (x # xs)) of
                   Continue s' \<Rightarrow> (Exhausted, s')
                 | Break s' \<Rightarrow> (Reached, s')
                 | Raise e s' \<Rightarrow> (Raised e, s')))"
proof
  have "length (loop_trace E pid target (nat (max_hours E)) s) \<le> nat (max_hours E)"
    by (rule loop_trace_length)
  with assms show "int (length (loop_trace E pid target (nat (max_hours E)) s)) \<le> max_hours E"
    by linarith
next
  show "post_loop E pid target (nat (max_hours E)) s =
           (case loop_trace E pid target (nat (max_hours E)) s of
              [] \<Rightarrow> (Exhausted, s)
            | x # xs \<Rightarrow>
                (case tick_body E pid target (last (x # xs)) of
                   Continue s' \<Rightarrow> (Exhausted, s')
                 | Break s' \<Rightarrow> (Reached, s')
                 | Raise e s' \<Rightarrow> (Raised e, s')))"
    by (rule post_loop_via_trace)
qed

theorem loop_within_max_ticks_witness:
  "1 \<le> max_hours demo_engine
   \<and> int (length (loop_trace demo_engine (post_id demo_post) 8 (nat (max_hours demo_engine))
                   (post_init (\<lambda>s. 0) 42 demo_stage demo_post 1))) \<le> max_hours demo_engine"
proof -
  have h: "1 \<le> max_hours demo_engine"
    by (simp add: demo_engine_def)
  from loop_within_max_ticks [OF h, of "post_id demo_post" 8
      "post_init (\<lambda>s. 0) 42 demo_stage demo_post 1"] h
  show ?thesis by blast
qed

subsection \<open>The hour cap\<close>







subsection \<open>Hours of weight zero\<close>




subsection \<open>The run as a whole\<close>

text \<open>
  C4. \<open>simulate\<close> is a function of the hash, the post list, the stage table, the engine
  configuration and the seed, and of the world it starts in: what the output file held
  before and whether a handle was open. It reads no clock and no generator but the one it
  seeds per post. Two runs on the same input, started in any two worlds, return the same
  result; when the configuration loads they leave the same rows in the output file and
  the same handle state, and when it does not load neither run touches its world. The rows
  are compared field by field; \<^verbatim>\<open>csv.writer\<close> prints equal fields as equal bytes.
\<close>

theorem simulate_deterministic:
  "fst (simulate sha256_head posts stage_map cfg seed w1) =
     fst (simulate sha256_head posts stage_map cfg seed w2)
   \<and> (case load_engine cfg of
        Inl e \<Rightarrow>
          snd (simulate sha256_head posts stage_map cfg seed w1) = w1
          \<and> snd (simulate sha256_head posts stage_map cfg seed w2) = w2
      | Inr E \<Rightarrow>
          snd (simulate sha256_head posts stage_map cfg seed w1) =
            snd (simulate sha256_head posts stage_map cfg seed w2))"
  by (simp add: simulate_def split: sum.split prod.split)

text \<open>
  C7. The handle is to be released on every exit path. The code closes it on line 162
  only, after the loop over the posts, with no \<^verbatim>\<open>with\<close> block and no \<^verbatim>\<open>finally\<close> around
  the loop (the two input files are read inside \<^verbatim>\<open>with\<close>). A post whose stage is not in the
  stage table raises \<^verbatim>\<open>KeyError\<close> on line 121, after the file was opened, and the run ends
  with the handle open. A malformed duration raises on lines 76 to 81, before the file is
  opened, and leaves the world as it was.
\<close>

theorem handle_left_open_on_unknown_stage:
  "simulate (\<lambda>s. 0) [demo_post\<lparr>stage := ''99''\<rparr>] [''1'' \<mapsto> demo_stage] demo_cfg 42
       \<lparr>out_file = None, out_open = False\<rparr>
     = (Inl KeyError, \<lparr>out_file = Some [], out_open = True\<rparr>)
   \<and> simulate (\<lambda>s. 0) [demo_post] [''1'' \<mapsto> demo_stage]
       (demo_cfg\<lparr>tick_duration := Some (TickStr ''1d'')\<rparr>) 42
       \<lparr>out_file = None, out_open = False\<rparr>
     = (Inl ValueError, \<lparr>out_file = None, out_open = False\<rparr>)"
  by code_simp

subsection \<open>Normalized weights\<close>




subsection \<open>Duration strings\<close>

lemma py_int_fraction: "\<bar>x - of_int (py_int x)\<bar> \<le> 1"
proof -
  have "\<bar>x - of_int \<lfloor>x\<rfloor>\<bar> \<le> 1" and "\<bar>x - of_int \<lceil>x\<rceil>\<bar> \<le> 1"
    by linarith+
  then show ?thesis
    by (simp add: py_int_def)
qed

lemma unit_factors_exact:
  "float_of_int 3600000000 = 3600000000"
  "float_of_int 60000000 = 60000000"
  "float_of_int 1000000 = 1000000"
  by code_simp+

lemma timedelta_float_accuracy:
  assumes "timedelta_float f (Finite x) = Inr d"
    and "float_of_int f = of_int f" and "0 \<le> f" and "f \<le> 3600000000"
  shows "\<bar>of_int d - x * of_int f\<bar> < 1"
proof -
  let ?ip = "py_int x"
  let ?fr = "x - of_int ?ip"
  let ?y = "fmul (float_of_int f) ?fr"
  have d: "d = round_half_even (of_int (?ip * f) + ?y)"
    using assms(1) by (simp add: timedelta_float_def Let_def timedelta_us_def split: if_splits)
  have fr: "\<bar>?fr\<bar> \<le> 1" by (rule py_int_fraction)
  have "\<bar>?y - of_int f * ?fr\<bar> \<le> unit_roundoff * \<bar>of_int f * ?fr\<bar>"
    using fl_round_error [of "of_int f * ?fr"] by (simp add: fmul_def assms(2))
  also have "\<bar>of_int f * ?fr\<bar> = of_int f * \<bar>?fr\<bar>"
    using assms(3) by (simp add: abs_mult)
  also have "unit_roundoff * (of_int f * \<bar>?fr\<bar>) \<le> unit_roundoff * (3600000000 * 1)"
    using assms(3,4) fr unit_roundoff_range(1)
    by (intro mult_left_mono mult_mono) simp_all
  also have "\<dots> < 1 / 2" by (simp add: unit_roundoff_def)
  finally have e1: "\<bar>?y - of_int f * ?fr\<bar> < 1 / 2" .
  have e2: "\<bar>of_int d - (of_int (?ip * f) + ?y)\<bar> \<le> 1 / 2"
    unfolding d by (rule round_half_even_error)
  have "of_int d - x * of_int f = (of_int d - (of_int (?ip * f) + ?y)) + (?y - of_int f * ?fr)"
    by (simp add: algebra_simps)
  with e1 e2 show ?thesis by linarith
qed

lemma timedelta_float_Inr_Finite:
  "timedelta_float f xf = Inr d \<Longrightarrow> \<exists>x. xf = Finite x"
  by (cases xf) (simp_all add: timedelta_float_def)

text \<open>
  C9, as the code has it, for ASCII strings. \<open>parse_tick\<close> first strips the surrounding
  white space (that of \<^verbatim>\<open>str.strip\<close>) and lowers the case. It then accepts exactly the
  strings that end in \<open>h\<close>, \<open>m\<close> or \<open>s\<close> and whose remaining prefix \<^verbatim>\<open>float\<close> reads as a
  finite number with a duration inside the range of \<^verbatim>\<open>timedelta\<close>; the duration returned
  is that number of hours, minutes or seconds to within a microsecond. A string that ends
  otherwise raises the format error.
\<close>

theorem parse_tick_accepts:
  fixes inp d
  defines "s \<equiv> lower (strip inp)"
  assumes "ascii_text inp"
  shows "(parse_tick inp = Inr d \<longleftrightarrow>
           (\<exists>x. py_float (butlast s) = Inr (Finite x)
              \<and> (endswith s (CHR ''h'') \<and> timedelta_float 3600000000 (Finite x) = Inr d
                 \<or> endswith s (CHR ''m'') \<and> timedelta_float 60000000 (Finite x) = Inr d
                 \<or> endswith s (CHR ''s'') \<and> timedelta_float 1000000 (Finite x) = Inr d)))
       \<and> (\<forall>f x. f \<in> {3600000000, 60000000, 1000000} \<and> timedelta_float f (Finite x) = Inr d
            \<longrightarrow> \<bar>of_int d - x * of_int f\<bar> < 1)
       \<and> (\<not> endswith s (CHR ''h'') \<and> \<not> endswith s (CHR ''m'') \<and> \<not> endswith s (CHR ''s'')
            \<longrightarrow> parse_tick inp = Inl ValueError)"
proof (intro conjI allI impI)
  show "parse_tick inp = Inr d \<longleftrightarrow>
           (\<exists>x. py_float (butlast s) = Inr (Finite x)
              \<and> (endswith s (CHR ''h'') \<and> timedelta_float 3600000000 (Finite x) = Inr d
                 \<or> endswith s (CHR ''m'') \<and> timedelta_float 60000000 (Finite x) = Inr d
                 \<or> endswith s (CHR ''s'') \<and> timedelta_float 1000000 (Finite x) = Inr d))"
    unfolding s_def parse_tick_def Let_def
    by (auto simp: endswith_def split: sum.splits dest: timedelta_float_Inr_Finite)
next
  fix f x
  assume a: "f \<in> {3600000000, 60000000, 1000000} \<and> timedelta_float f (Finite x) = Inr d"
  then have "float_of_int f = of_int f" "0 \<le> f" "f \<le> 3600000000"
    using unit_factors_exact by auto
  with a show "\<bar>of_int d - x * of_int f\<bar> < 1"
    by (intro timedelta_float_accuracy) simp_all
next
  assume "\<not> endswith s (CHR ''h'') \<and> \<not> endswith s (CHR ''m'') \<and> \<not> endswith s (CHR ''s'')"
  then show "parse_tick inp = Inl ValueError"
    by (simp add: s_def parse_tick_def Let_def)
qed

theorem parse_tick_accepts_witness:
  "ascii_text ''0.1h''
   \<and> parse_tick ''0.1h'' = Inr 360000000
   \<and> timedelta_float 3600000000 (Finite (3602879701896397 / 36028797018963968)) = Inr 360000000
   \<and> \<bar>of_int 360000000 - 3602879701896397 / 36028797018963968 * of_int 3600000000\<bar> < (1::rat)
   \<and> ascii_text ''1d''
   \<and> \<not> endswith (lower (strip ''1d'')) (CHR ''h'')
   \<and> \<not> endswith (lower (strip ''1d'')) (CHR ''m'')
   \<and> \<not> endswith (lower (strip ''1d'')) (CHR ''s'')
   \<and> parse_tick ''1d'' = Inl ValueError"
proof -
  have a: "ascii_text ''0.1h''" and b: "ascii_text ''1d''"
    by (simp_all add: ascii_text_def)
  have e: "parse_tick ''0.1h'' = Inr 360000000
      \<and> timedelta_float 3600000000 (Finite (3602879701896397 / 36028797018963968))
          = Inr 360000000
      \<and> \<not> endswith (lower (strip ''1d'')) (CHR ''h'')
      \<and> \<not> endswith (lower (strip ''1d'')) (CHR ''m'')
      \<and> \<not> endswith (lower (strip ''1d'')) (CHR ''s'')"
    by code_simp
  have f: "(3600000000::int) \<in> {3600000000, 60000000, 1000000}"
    by simp
  from parse_tick_accepts [OF a, of 360000000] e f
  have A: "\<bar>of_int 360000000 - 3602879701896397 / 36028797018963968 * of_int 3600000000\<bar>
      < (1::rat)"
    by blast
  from parse_tick_accepts [OF b, of 0] e
  have B: "parse_tick ''1d'' = Inl ValueError"
    by blast
  from A B a b e show ?thesis by blast
qed

text \<open>
  The two sets of white space differ on the separators 0x1C to 0x1F: around the whole
  string they are stripped, before the unit letter they reach \<^verbatim>\<open>float\<close>, which rejects
  them.
\<close>

lemma parse_tick_separators:
  "parse_tick [CHR 0x1C, CHR ''1'', CHR ''h'', CHR 0x1F] = Inr 3600000000
   \<and> parse_tick [CHR ''1'', CHR 0x1C, CHR ''h''] = Inl ValueError
   \<and> parse_tick [CHR ''1'', CHR 0x0B, CHR ''h''] = Inr 3600000000"
  by code_simp

text \<open>
  C9 as stated fails in both directions. The string \<^verbatim>\<open>" 2H  "\<close> ends in a space and
  carries a capital letter, and is accepted as two hours. The string \<^verbatim>\<open>"1e20h"\<close> is a
  numeric literal followed by \<open>h\<close>, and is rejected with \<^verbatim>\<open>OverflowError\<close>.
\<close>

theorem parse_tick_accepts_more:
  "ascii_text '' 2H  '' \<and> parse_tick '' 2H  '' = Inr 7200000000 \<and> last '' 2H  '' = CHR '' ''
   \<and> ascii_text ''1e20h'' \<and> parse_tick ''1e20h'' = Inl OverflowError"
  by code_simp

end
